theory Spec2Isabelle
  imports Main "HOL-Library.Sublist"
begin

section \<open>Python values, errors and durations\<close>

text \<open>
  The development follows \<^verbatim>\<open>src/utils/answer_submission.py\<close>. Every exception the
  Python code can raise is a value of \<open>error\<close>; a function that may raise returns
  \<open>error + 'a\<close>, with \<open>Inl\<close> for the exception.
\<close>

datatype error =
    OSError
  | JSONDecodeError
  | TypeError
  | KeyError
  | IndexError
  | AttributeError
  | ValueError
  | OverflowError
  | ParserError
  | ExternalError string

definition and_then :: "error + 'a \<Rightarrow> ('a \<Rightarrow> error + 'b) \<Rightarrow> error + 'b" where
  "and_then r f = (case r of Inl e \<Rightarrow> Inl e | Inr x \<Rightarrow> f x)"

text \<open>
  A \<^verbatim>\<open>timedelta\<close> is a whole number of microseconds. Python keeps it between
  \<^verbatim>\<open>timedelta.min\<close> (-999999999 days) and \<^verbatim>\<open>timedelta.max\<close>
  (999999999 days, 23:59:59.999999) and raises \<^verbatim>\<open>OverflowError\<close> outside.
\<close>

type_synonym timedelta = int

definition td_min :: int where
  "td_min = - 86399999913600000000"

definition td_max :: int where
  "td_max = 86399999999999999999"

definition td_check :: "int \<Rightarrow> error + timedelta" where
  "td_check us = (if td_min \<le> us \<and> us \<le> td_max then Inr us else Inl OverflowError)"

text \<open>\<^verbatim>\<open>timedelta(minutes=m, seconds=s)\<close>\<close>

definition timedelta_of :: "int \<Rightarrow> int \<Rightarrow> error + timedelta" where
  "timedelta_of minutes seconds = td_check ((minutes * 60 + seconds) * 1000000)"

section \<open>The wait-time parser\<close>

text \<open>
  A Python string is a list of Unicode code points, which are integers; \<open>codes\<close> gives
  the code points of a string of this theory, whose characters are the code points 0 to
  255.
\<close>

type_synonym pystr = "int list"

definition codes :: "string \<Rightarrow> pystr" where
  "codes s = map of_char s"

text \<open>
  Under \<^verbatim>\<open>re.IGNORECASE\<close> a character matches an ASCII character of a pattern when
  both fold to the same code: a capital letter folds to its small letter, and four
  characters beyond ASCII fold to a small ASCII letter, U+0130 and U+0131 to \<^verbatim>\<open>i\<close>,
  U+017F to \<^verbatim>\<open>s\<close>, U+212A to \<^verbatim>\<open>k\<close>.
\<close>

definition lower_code :: "int \<Rightarrow> int" where
  "lower_code c =
     (if 65 \<le> c \<and> c \<le> 90 then c + 32
      else if c = 0x130 \<or> c = 0x131 then 0x69
      else if c = 0x17F then 0x73
      else if c = 0x212A then 0x6B
      else c)"

text \<open>
  \<^verbatim>\<open>\d\<close> matches the decimal digits of Unicode (category Nd), which come in runs of
  ten, from the zero to the nine of a script; \<^verbatim>\<open>int\<close> reads each of them as its
  value. The zeros are those of Unicode 14.0, the table of CPython 3.11.
\<close>

definition digit_zeros :: "int list" where
  "digit_zeros =
     [48, 1632, 1776, 1984, 2406, 2534, 2662, 2790, 2918, 3046,
      3174, 3302, 3430, 3558, 3664, 3792, 3872, 4160, 4240, 6112,
      6160, 6470, 6608, 6784, 6800, 6992, 7088, 7232, 7248, 42528,
      43216, 43264, 43472, 43504, 43600, 44016, 65296, 66720, 68912, 69734,
      69872, 69942, 70096, 70384, 70736, 70864, 71248, 71360, 71472, 71904,
      72016, 72784, 73040, 73120, 92768, 92864, 93008, 120782, 120792, 120802,
      120812, 120822, 123200, 123632, 125264, 130032]"

definition digit_value :: "int \<Rightarrow> nat option" where
  "digit_value c =
     map_option (\<lambda>z. nat (c - z)) (find (\<lambda>z. z \<le> c \<and> c < z + 10) digit_zeros)"

definition is_digit :: "int \<Rightarrow> bool" where
  "is_digit c = (digit_value c \<noteq> None)"

text \<open>The number that a run of digits writes.\<close>

definition decimal :: "pystr \<Rightarrow> nat" where
  "decimal ds = foldl (\<lambda>a c. 10 * a + (case digit_value c of Some v \<Rightarrow> v | None \<Rightarrow> 0)) 0 ds"

text \<open>
  \<^verbatim>\<open>int(group)\<close> on a run of digits, which is what the groups of the two patterns
  hold. CPython raises \<^verbatim>\<open>ValueError\<close> on a run of more digits than
  \<^verbatim>\<open>sys.get_int_max_str_digits()\<close>, 4300 unless the operator changes it.
\<close>

definition int_max_str_digits :: nat where
  "int_max_str_digits = 4300"

definition py_int :: "pystr \<Rightarrow> error + nat" where
  "py_int ds = (if length ds > int_max_str_digits then Inl ValueError else Inr (decimal ds))"

text \<open>\<^verbatim>\<open>map(int, groups)\<close>, consumed from left to right.\<close>

fun map_int :: "pystr list \<Rightarrow> error + nat list" where
  "map_int [] = Inr []"
| "map_int (g # gs) =
     and_then (py_int g) (\<lambda>v. and_then (map_int gs) (\<lambda>vs. Inr (v # vs)))"

text \<open>
  The pieces the two regular expressions are made of: a literal character (compared
  without regard to case), the group \<^verbatim>\<open>(\d+)\<close>, and \<^verbatim>\<open>.\<close> (any character but
  a newline).
\<close>

datatype item = Lit int | Digits | Dot

text \<open>
  \<open>match_here\<close> matches a pattern at the start of a string and returns the captured
  groups. \<^verbatim>\<open>\d+\<close> is greedy; in both patterns the item after it is a letter or a
  space, so giving back a digit can never make a failed match succeed, and taking the
  longest run of digits is all the backtracking matcher can do.
\<close>

fun match_here :: "item list \<Rightarrow> pystr \<Rightarrow> pystr list option" where
  "match_here [] s = Some []"
| "match_here (Lit p # items) s =
     (case s of [] \<Rightarrow> None
      | c # cs \<Rightarrow> if lower_code c = lower_code p then match_here items cs else None)"
| "match_here (Dot # items) s =
     (case s of [] \<Rightarrow> None
      | c # cs \<Rightarrow> if c = 0x0A then None else match_here items cs)"
| "match_here (Digits # items) s =
     (let d = takeWhile is_digit s
      in if d = [] then None
         else map_option (\<lambda>groups. d # groups) (match_here items (dropWhile is_digit s)))"

text \<open>\<^verbatim>\<open>re.search\<close>: the match at the leftmost position that has one.\<close>

fun re_search :: "item list \<Rightarrow> pystr \<Rightarrow> pystr list option" where
  "re_search p [] = match_here p []"
| "re_search p (c # cs) =
     (case match_here p (c # cs) of Some groups \<Rightarrow> Some groups | None \<Rightarrow> re_search p cs)"

text \<open>\<^verbatim>\<open>r"You have (\d+)m (\d+)s left to wait."\<close>\<close>

definition wait_time_pattern :: "item list" where
  "wait_time_pattern =
     map Lit (codes ''You have '') @ [Digits] @ map Lit (codes ''m '') @ [Digits]
       @ map Lit (codes ''s left to wait'') @ [Dot]"

text \<open>\<^verbatim>\<open>r"please wait (\d+) minutes before trying again"\<close>\<close>

definition minutes_wait_pattern :: "item list" where
  "minutes_wait_pattern =
     map Lit (codes ''please wait '') @ [Digits]
       @ map Lit (codes '' minutes before trying again'')"

text \<open>\<^verbatim>\<open>needle in haystack\<close> on strings.\<close>

fun contains :: "'a list \<Rightarrow> 'a list \<Rightarrow> bool" where
  "contains [] needle = (needle = [])"
| "contains (c # cs) needle = (prefix needle (c # cs) \<or> contains cs needle)"

definition parse_wait_time :: "pystr \<Rightarrow> error + timedelta" where
  "parse_wait_time message =
     (case re_search wait_time_pattern message of
        Some groups \<Rightarrow>
          and_then (map_int groups) (\<lambda>values.
            case values of
              [minutes, seconds] \<Rightarrow> timedelta_of (int minutes) (int seconds)
            | _ \<Rightarrow> Inl ValueError)
      | None \<Rightarrow>
          if contains message (codes ''one minute'') then timedelta_of 1 0
          else
            (case re_search minutes_wait_pattern message of
               Some groups \<Rightarrow>
                 (case groups of
                    minutes # _ \<Rightarrow>
                      and_then (py_int minutes) (\<lambda>minutes. timedelta_of (int minutes) 0)
                  | [] \<Rightarrow> Inl IndexError)
             | None \<Rightarrow> timedelta_of 0 0))"

text \<open>Two strings that differ in the case of their letters at most.\<close>

definition ci_eq :: "pystr \<Rightarrow> pystr \<Rightarrow> bool" where
  "ci_eq a b = (map lower_code a = map lower_code b)"

section \<open>Timestamps\<close>

text \<open>
  A \<^verbatim>\<open>datetime\<close> is a number of microseconds: on the wall clock when it has no
  UTC offset (naive), since the epoch in UTC when it has one (aware). Python compares and
  subtracts two datetimes of the same kind and raises \<^verbatim>\<open>TypeError\<close> on a naive
  one against an aware one. The difference of two datetimes always fits a
  \<^verbatim>\<open>timedelta\<close> (years run from 1 to 9999).
\<close>

datatype datetime = Naive int | Aware int

fun dt_gt :: "datetime \<Rightarrow> datetime \<Rightarrow> error + bool" where
  "dt_gt (Naive a) (Naive b) = Inr (a > b)"
| "dt_gt (Aware a) (Aware b) = Inr (a > b)"
| "dt_gt _ _ = Inl TypeError"

fun dt_sub :: "datetime \<Rightarrow> datetime \<Rightarrow> error + timedelta" where
  "dt_sub (Naive a) (Naive b) = Inr (a - b)"
| "dt_sub (Aware a) (Aware b) = Inr (a - b)"
| "dt_sub _ _ = Inl TypeError"

text \<open>\<^verbatim>\<open>a - b\<close> on two timedeltas.\<close>

definition td_sub :: "timedelta \<Rightarrow> timedelta \<Rightarrow> error + timedelta" where
  "td_sub a b = td_check (a - b)"

section \<open>The feedback cache\<close>

text \<open>
  What \<^verbatim>\<open>json.load\<close> returns. The code below asks of a number only whether it is
  zero, and subscripts or iterates none, so a float behaves as an integer does.
  An object is its list of members, keys distinct.
\<close>

datatype json =
    JNull
  | JBool bool
  | JNum int
  | JStr string
  | JArr "json list"
  | JObj "(string \<times> json) list"

text \<open>\<^verbatim>\<open>if x:\<close>\<close>

fun truthy :: "json \<Rightarrow> bool" where
  "truthy JNull = False"
| "truthy (JBool b) = b"
| "truthy (JNum n) = (n \<noteq> 0)"
| "truthy (JStr s) = (s \<noteq> [])"
| "truthy (JArr xs) = (xs \<noteq> [])"
| "truthy (JObj kvs) = (kvs \<noteq> [])"

text \<open>\<^verbatim>\<open>x[-1]\<close>\<close>

fun index_last :: "json \<Rightarrow> error + json" where
  "index_last (JArr xs) = (if xs = [] then Inl IndexError else Inr (last xs))"
| "index_last (JStr s) = (if s = [] then Inl IndexError else Inr (JStr [last s]))"
| "index_last (JObj kvs) = Inl KeyError"
| "index_last _ = Inl TypeError"

text \<open>\<^verbatim>\<open>x[key]\<close> with a string key\<close>

fun getitem :: "json \<Rightarrow> string \<Rightarrow> error + json" where
  "getitem (JObj kvs) key = (case map_of kvs key of None \<Rightarrow> Inl KeyError | Some v \<Rightarrow> Inr v)"
| "getitem _ key = Inl TypeError"

text \<open>\<^verbatim>\<open>x.get(key, default)\<close>\<close>

fun dict_get :: "json \<Rightarrow> string \<Rightarrow> json \<Rightarrow> error + json" where
  "dict_get (JObj kvs) key dflt =
     (case map_of kvs key of None \<Rightarrow> Inr dflt | Some v \<Rightarrow> Inr v)"
| "dict_get _ key dflt = Inl AttributeError"

text \<open>\<^verbatim>\<open>needle in x\<close> with a string needle\<close>

fun py_in :: "string \<Rightarrow> json \<Rightarrow> error + bool" where
  "py_in needle (JStr s) = Inr (contains s needle)"
| "py_in needle (JArr xs) = Inr (JStr needle \<in> set xs)"
| "py_in needle (JObj kvs) = Inr (needle \<in> set (map fst kvs))"
| "py_in needle _ = Inl TypeError"

text \<open>
  \<^verbatim>\<open>dateutil.parser.parse\<close> is a library outside the repository: the functions
  below take it as the parameter \<open>parse\<close>. It accepts strings only.
\<close>

type_synonym parser = "string \<Rightarrow> error + datetime"

fun py_parse :: "parser \<Rightarrow> json \<Rightarrow> error + datetime" where
  "py_parse parse (JStr s) = parse s"
| "py_parse parse _ = Inl TypeError"

text \<open>
  One file matched by \<^verbatim>\<open>**/*_post.json\<close>: \<^verbatim>\<open>open\<close> raises, or
  \<^verbatim>\<open>json.load\<close> raises, or the file holds a JSON value. The cache is \<open>None\<close>
  when the directory does not exist, and else the matched files in the order
  \<^verbatim>\<open>glob\<close> lists them.
\<close>

datatype post_file = Unreadable | Malformed | Loaded json

type_synonym cache = "post_file list option"

text \<open>
  The state of the loop of \<^verbatim>\<open>read_last_submission_feedback\<close>:
  \<^verbatim>\<open>latest_valid_feedback\<close> and \<^verbatim>\<open>latest_submission_time\<close>.
\<close>

type_synonym latest = "json option \<times> datetime option"

text \<open>One round of the loop (lines 97 to 109).\<close>

definition scan_file :: "parser \<Rightarrow> latest \<Rightarrow> post_file \<Rightarrow> error + latest" where
  "scan_file parse st feedback_file =
     (case feedback_file of
        Unreadable \<Rightarrow> Inl OSError
      | Malformed \<Rightarrow> Inl JSONDecodeError
      | Loaded data \<Rightarrow>
          if truthy data then
            and_then (index_last data) (\<lambda>latest_feedback.
            and_then (getitem latest_feedback ''when'') (\<lambda>when.
            and_then (py_parse parse when) (\<lambda>submission_time.
            and_then (dict_get latest_feedback ''message'' (JStr [])) (\<lambda>message.
            and_then (py_in ''wait'' message) (\<lambda>has_wait.
              if has_wait then
                (case snd st of
                   None \<Rightarrow> Inr (Some latest_feedback, Some submission_time)
                 | Some latest_submission_time \<Rightarrow>
                     and_then (dt_gt submission_time latest_submission_time) (\<lambda>later.
                       if later then Inr (Some latest_feedback, Some submission_time)
                       else Inr st))
              else Inr st)))))
          else Inr st)"

fun scan_files :: "parser \<Rightarrow> latest \<Rightarrow> post_file list \<Rightarrow> error + latest" where
  "scan_files parse st [] = Inr st"
| "scan_files parse st (f # fs) =
     and_then (scan_file parse st f) (\<lambda>st'. scan_files parse st' fs)"

definition read_last_submission_feedback :: "parser \<Rightarrow> cache \<Rightarrow> error + json option" where
  "read_last_submission_feedback parse aocd_dir =
     (case aocd_dir of
        None \<Rightarrow> Inr None
      | Some post_files \<Rightarrow>
          and_then (scan_files parse (None, None) post_files) (\<lambda>st. Inr (fst st)))"

section \<open>Feedback entries, in the words of the specification\<close>

text \<open>
  The message of a feedback entry, when the entry is an object whose message is a string;
  an entry without the field has the empty message, the default of
  \<^verbatim>\<open>.get("message", "")\<close>.
\<close>

fun message_text :: "json \<Rightarrow> string option" where
  "message_text (JObj kvs) =
     (case map_of kvs ''message'' of
        None \<Rightarrow> Some []
      | Some (JStr s) \<Rightarrow> Some s
      | Some _ \<Rightarrow> None)"
| "message_text _ = None"

text \<open>An entry indicates a wait when its message has the substring \<^verbatim>\<open>wait\<close>.\<close>

definition wait_indicating :: "json \<Rightarrow> bool" where
  "wait_indicating fb = (case message_text fb of Some s \<Rightarrow> sublist ''wait'' s | None \<Rightarrow> False)"

text \<open>
  The instant of an entry, when its \<^verbatim>\<open>when\<close> is a string that the parser reads as
  a timestamp with a UTC offset.
\<close>

fun entry_time :: "parser \<Rightarrow> json \<Rightarrow> int option" where
  "entry_time parse (JObj kvs) =
     (case map_of kvs ''when'' of
        Some (JStr w) \<Rightarrow> (case parse w of Inr (Aware t) \<Rightarrow> Some t | _ \<Rightarrow> None)
      | _ \<Rightarrow> None)"
| "entry_time parse _ = None"

text \<open>The last entry of a feedback file that holds a non-empty list.\<close>

fun last_entry :: "post_file \<Rightarrow> json option" where
  "last_entry (Loaded (JArr xs)) = (if xs = [] then None else Some (last xs))"
| "last_entry _ = None"

text \<open>
  A file the reader gets through: it is read and decoded, and holds nothing (an empty list
  or another value that counts as false) or a list whose last entry has a string or no
  message and an instant.
\<close>

definition well_formed :: "parser \<Rightarrow> post_file \<Rightarrow> bool" where
  "well_formed parse f =
     (case f of
        Loaded data \<Rightarrow>
          (case data of
             JArr xs \<Rightarrow>
               xs = [] \<or> (message_text (last xs) \<noteq> None \<and> entry_time parse (last xs) \<noteq> None)
           | _ \<Rightarrow> \<not> truthy data)
      | _ \<Rightarrow> False)"

text \<open>
  What the loop of the reader holds after the files \<open>fs\<close>: nothing, and no last entry
  of these files indicates a wait; or the last entry of one of them that indicates a wait,
  with its instant, and no such last entry of these files is later.
\<close>

definition found :: "parser \<Rightarrow> post_file list \<Rightarrow> latest \<Rightarrow> bool" where
  "found parse fs st \<longleftrightarrow>
     (st = (None, None)
        \<and> (\<forall>f\<in>set fs. \<forall>fb. last_entry f = Some fb \<longrightarrow> \<not> wait_indicating fb))
     \<or> (\<exists>fb t. st = (Some fb, Some (Aware t))
          \<and> (\<exists>f\<in>set fs. last_entry f = Some fb) \<and> wait_indicating fb
          \<and> entry_time parse fb = Some t
          \<and> (\<forall>f\<in>set fs. \<forall>fb' t'. last_entry f = Some fb' \<and> wait_indicating fb'
                \<and> entry_time parse fb' = Some t' \<longrightarrow> t' \<le> t))"

section \<open>The cooldown calculator\<close>

text \<open>\<^verbatim>\<open>parse_wait_time(x)\<close> on a JSON value: \<^verbatim>\<open>re.search\<close> takes strings only.\<close>

fun parse_wait_time_of :: "json \<Rightarrow> error + timedelta" where
  "parse_wait_time_of (JStr s) = parse_wait_time (codes s)"
| "parse_wait_time_of _ = Inl TypeError"

text \<open>
  Lines 138 to 146, on the feedback that line 137 has read; \<open>now\<close> is the clock,
  \<^verbatim>\<open>datetime.now(tz=tzlocal())\<close>, an aware datetime.
\<close>

definition remaining_of_feedback :: "parser \<Rightarrow> int \<Rightarrow> json option \<Rightarrow> error + timedelta" where
  "remaining_of_feedback parse now feedback =
     (case feedback of
        None \<Rightarrow> Inr 0
      | Some fb \<Rightarrow>
          if truthy fb then
            and_then (dict_get fb ''message'' (JStr [])) (\<lambda>message.
            and_then (py_in ''wait'' message) (\<lambda>has_wait.
              if has_wait then
                and_then (getitem fb ''message'') (\<lambda>msg.
                and_then (parse_wait_time_of msg) (\<lambda>wait_time.
                and_then (getitem fb ''when'') (\<lambda>when.
                and_then (py_parse parse when) (\<lambda>submission_time.
                and_then (dt_sub (Aware now) submission_time) (\<lambda>elapsed_time.
                and_then (td_sub wait_time elapsed_time) (\<lambda>remaining_time.
                  Inr (max remaining_time 0)))))))
              else Inr 0))
          else Inr 0)"

definition calculate_remaining_wait_time :: "parser \<Rightarrow> cache \<Rightarrow> int \<Rightarrow> error + timedelta" where
  "calculate_remaining_wait_time parse aocd_dir now =
     and_then (read_last_submission_feedback parse aocd_dir) (remaining_of_feedback parse now)"

section \<open>The countdown and the dispatcher\<close>

text \<open>
  What an attempt does, in order: the messages it prints, the seconds it sleeps, and its
  calls of the two collaborators (\<^verbatim>\<open>aocd.submit\<close> and
  \<^verbatim>\<open>check_and_update_example_input\<close>).
\<close>

datatype event =
    SayAlreadySubmitted
  | ShowTimer int int
  | Sleep
  | SayMayNowSubmit
  | Submit
  | SayCompletion string
  | Refresh
  | SayFailed
  | SayError error

text \<open>
  The timer shows \<^verbatim>\<open>divmod(int(total_seconds()), 60)\<close>, the whole seconds left.
\<close>

function display_countdown_timer :: "timedelta \<Rightarrow> event list" where
  "display_countdown_timer remaining_time =
     (if remaining_time > 0 then
        ShowTimer (remaining_time div 1000000 div 60) (remaining_time div 1000000 mod 60)
          # Sleep # display_countdown_timer (remaining_time - 1000000)
      else [SayMayNowSubmit])"
  by pat_completeness auto
termination
  by (relation "measure nat") auto

declare display_countdown_timer.simps [simp del]

text \<open>\<^verbatim>\<open>text.split(marker)[0]\<close>: the text before the first occurrence of the marker.\<close>

fun before_first :: "string \<Rightarrow> string \<Rightarrow> string" where
  "before_first marker [] = []"
| "before_first marker (c # cs) =
     (if prefix marker (c # cs) then [] else c # before_first marker cs)"

text \<open>
  The loop over the paragraphs of the article (lines 186 to 194). \<open>refresh k\<close> is what
  the call number \<open>k\<close> of the example refresh does: it returns (\<open>None\<close>) or raises;
  an exception ends the loop in the handler of line 197.
\<close>

fun scan_paragraphs :: "(nat \<Rightarrow> error option) \<Rightarrow> nat \<Rightarrow> string list \<Rightarrow> event list" where
  "scan_paragraphs refresh k [] = []"
| "scan_paragraphs refresh k (text # paragraphs) =
     (if contains text ''You have completed Day'' then
        [SayCompletion (before_first ''You have completed Day'' text)]
      else if contains text ''[Continue to Part Two]'' then
        Refresh # (case refresh k of
                     Some e \<Rightarrow> [SayError e]
                   | None \<Rightarrow> scan_paragraphs refresh (Suc k) paragraphs)
      else scan_paragraphs refresh k paragraphs)"

text \<open>
  The response of the site as lines 176 to 185 see it: an exception of the transport,
  the decoding or the markup parser, or the markup, which has no \<^verbatim>\<open>article\<close>
  (\<open>None\<close>) or one with these paragraph texts.
\<close>

type_synonym response = "error + string list option"

text \<open>
  An attempt gives its events and the exception that leaves it, if one does. \<open>answered\<close>
  is the outcome of the status query of lines 162 to 164.
\<close>

definition submit_answer_attempt ::
  "parser \<Rightarrow> cache \<Rightarrow> int \<Rightarrow> error + bool \<Rightarrow> response \<Rightarrow> (nat \<Rightarrow> error option)
     \<Rightarrow> event list \<times> error option" where
  "submit_answer_attempt parse aocd_dir now answered submission refresh =
     (case answered of
        Inl e \<Rightarrow> ([], Some e)
      | Inr response \<Rightarrow>
          if response then ([SayAlreadySubmitted], None)
          else
            (case calculate_remaining_wait_time parse aocd_dir now of
               Inl e \<Rightarrow> ([], Some e)
             | Inr remaining_wait_time \<Rightarrow>
                 if remaining_wait_time > 0 then
                   (display_countdown_timer remaining_wait_time, None)
                 else
                   (Submit #
                      (case submission of
                         Inl e \<Rightarrow> [SayError e]
                       | Inr None \<Rightarrow> [SayFailed]
                       | Inr (Some paragraphs) \<Rightarrow> scan_paragraphs refresh 0 paragraphs),
                    None)))"

section \<open>A timestamp parser to run the model with\<close>

text \<open>
  The format of the cache files, \<^verbatim>\<open>YYYY-MM-DDTHH:MM:SS\<close> with or without a UTC
  offset \<^verbatim>\<open>+HH:MM\<close> or \<^verbatim>\<open>-HH:MM\<close>; every other string is refused.
  \<^verbatim>\<open>dateutil\<close> reads many more formats, which is why the theorems hold for every
  parser; this one serves to evaluate the model on concrete caches.
\<close>

definition field :: "string \<Rightarrow> nat \<Rightarrow> nat \<Rightarrow> int" where
  "field s i n = int (decimal (codes (take n (drop i s))))"

definition all_digits :: "string \<Rightarrow> bool" where
  "all_digits s = list_all is_digit (codes s)"

definition days_in_month :: "int \<Rightarrow> int \<Rightarrow> int" where
  "days_in_month y m =
     (if m = 2 then (if y mod 4 = 0 \<and> (y mod 100 \<noteq> 0 \<or> y mod 400 = 0) then 29 else 28)
      else if m = 4 \<or> m = 6 \<or> m = 9 \<or> m = 11 then 30 else 31)"

text \<open>Days from 1970-01-01 to the given date of the Gregorian calendar.\<close>

definition days_from_civil :: "int \<Rightarrow> int \<Rightarrow> int \<Rightarrow> int" where
  "days_from_civil y m d =
     (let y' = (if m \<le> 2 then y - 1 else y);
          era = y' div 400;
          yoe = y' - era * 400;
          doy = (153 * (if m > 2 then m - 3 else m + 9) + 2) div 5 + d - 1;
          doe = yoe * 365 + yoe div 4 - yoe div 100 + doy
      in era * 146097 + doe - 719468)"

definition local_shape :: "string \<Rightarrow> bool" where
  "local_shape s =
     (length s = 19
      \<and> all_digits (take 4 s) \<and> s ! 4 = CHR ''-''
      \<and> all_digits (take 2 (drop 5 s)) \<and> s ! 7 = CHR ''-''
      \<and> all_digits (take 2 (drop 8 s)) \<and> s ! 10 = CHR ''T''
      \<and> all_digits (take 2 (drop 11 s)) \<and> s ! 13 = CHR '':''
      \<and> all_digits (take 2 (drop 14 s)) \<and> s ! 16 = CHR '':''
      \<and> all_digits (take 2 (drop 17 s))
      \<and> 1 \<le> field s 0 4 \<and> 1 \<le> field s 5 2 \<and> field s 5 2 \<le> 12
      \<and> 1 \<le> field s 8 2 \<and> field s 8 2 \<le> days_in_month (field s 0 4) (field s 5 2)
      \<and> field s 11 2 < 24 \<and> field s 14 2 < 60 \<and> field s 17 2 < 60)"

definition local_us :: "string \<Rightarrow> int" where
  "local_us s =
     (((days_from_civil (field s 0 4) (field s 5 2) (field s 8 2) * 24 + field s 11 2) * 60
        + field s 14 2) * 60 + field s 17 2) * 1000000"

definition offset_shape :: "string \<Rightarrow> bool" where
  "offset_shape s =
     (length s = 6 \<and> (s ! 0 = CHR ''+'' \<or> s ! 0 = CHR ''-'')
      \<and> all_digits (take 2 (drop 1 s)) \<and> s ! 3 = CHR '':''
      \<and> all_digits (take 2 (drop 4 s))
      \<and> field s 1 2 < 24 \<and> field s 4 2 < 60)"

definition offset_us :: "string \<Rightarrow> int" where
  "offset_us s =
     (if s ! 0 = CHR ''-'' then - 1 else 1) * (field s 1 2 * 60 + field s 4 2) * 60 * 1000000"

definition parse_iso :: parser where
  "parse_iso s =
     (if local_shape s then Inr (Naive (local_us s))
      else if local_shape (take 19 s) \<and> offset_shape (drop 19 s)
        then Inr (Aware (local_us (take 19 s) - offset_us (drop 19 s)))
      else Inl ParserError)"

text \<open>An example refresh that returns at every call.\<close>

definition refresh_ok :: "nat \<Rightarrow> error option" where
  "refresh_ok k = None"

section \<open>A cache to run the model on\<close>

text \<open>
  One feedback file whose only entry was recorded at 10:00:00 (UTC-05:00) on 1 December
  2024 and tells the operator to wait one minute, and the clock thirty seconds later.
\<close>

definition scenario_entry :: json where
  "scenario_entry =
     JObj [(''part'', JStr ''a''),
           (''when'', JStr ''2024-12-01T10:00:00-05:00''),
           (''message'', JStr ''You have 1m 0s left to wait.'')]"

definition later_entry :: json where
  "later_entry =
     JObj [(''part'', JStr ''a''),
           (''when'', JStr ''2024-12-01T10:02:00-05:00''),
           (''message'', JStr ''That's not the right answer.'')]"

text \<open>An entry whose message has the word in capitals only.\<close>

definition upper_case_entry :: json where
  "upper_case_entry =
     JObj [(''when'', JStr ''2024-12-01T10:00:00-05:00''),
           (''message'', JStr ''Please WAIT before trying again.'')]"

definition scenario_cache :: cache where
  "scenario_cache = Some [Loaded (JArr [scenario_entry])]"

definition scenario_now :: int where
  "scenario_now = 1733065230000000"

section \<open>Properties of the wait-time parser\<close>

lemma contains_iff_sublist: "contains s needle \<longleftrightarrow> sublist needle s"
  by (induction s) (auto simp: sublist_Cons_right)

lemma and_then_Inl [simp]: "and_then (Inl e) f = Inl e"
  by (simp add: and_then_def)

lemma and_then_Inr [simp]: "and_then (Inr x) f = f x"
  by (simp add: and_then_def)

lemma and_then_eq_Inr:
  "and_then r f = Inr y \<longleftrightarrow> (\<exists>x. r = Inr x \<and> f x = Inr y)"
  by (cases r) simp_all

lemma and_then_eq_Inl:
  "and_then r f = Inl e \<longleftrightarrow> r = Inl e \<or> (\<exists>x. r = Inr x \<and> f x = Inl e)"
  by (cases r) simp_all

lemma re_search_None_iff:
  "re_search p s = None \<longleftrightarrow> (\<forall>k\<le>length s. match_here p (drop k s) = None)"
proof (induction s)
  case Nil
  then show ?case by simp
next
  case (Cons c cs)
  have "(\<forall>k\<le>length (c # cs). match_here p (drop k (c # cs)) = None) \<longleftrightarrow>
        match_here p (c # cs) = None \<and> (\<forall>k\<le>length cs. match_here p (drop k cs) = None)"
    (is "?L \<longleftrightarrow> ?R")
  proof
    assume l: ?L
    have "match_here p (c # cs) = None" using l [rule_format, of 0] by simp
    moreover have "match_here p (drop k cs) = None" if "k \<le> length cs" for k
      using l [rule_format, of "Suc k"] that by simp
    ultimately show ?R by blast
  next
    assume r: ?R
    show ?L
    proof (intro allI impI)
      fix k assume "k \<le> length (c # cs)"
      then show "match_here p (drop k (c # cs)) = None"
        using r by (cases k) auto
    qed
  qed
  with Cons show ?case by (auto split: option.splits)
qed

lemma re_search_leftmost:
  "\<forall>k<length pre. match_here p (drop k (pre @ rest)) = None \<Longrightarrow>
   match_here p rest = Some g \<Longrightarrow> re_search p (pre @ rest) = Some g"
proof (induction pre)
  case Nil
  then show ?case by (cases rest) auto
next
  case (Cons c pre)
  have here: "match_here p (c # pre @ rest) = None"
    using Cons.prems(1) [rule_format, of 0] by simp
  have "\<forall>k<length pre. match_here p (drop k (pre @ rest)) = None"
  proof (intro allI impI)
    fix k assume "k < length pre"
    then show "match_here p (drop k (pre @ rest)) = None"
      using Cons.prems(1) [rule_format, of "Suc k"] by simp
  qed
  then have "re_search p (pre @ rest) = Some g"
    using Cons.IH Cons.prems(2) by blast
  with here show ?case by simp
qed

lemma match_here_lits:
  "ci_eq h lit \<Longrightarrow> match_here (map Lit lit @ items) (h @ rest) = match_here items rest"
proof (induction lit arbitrary: h)
  case Nil
  then show ?case by (simp add: ci_eq_def)
next
  case (Cons p lit)
  then obtain c h' where h: "h = c # h'" "lower_code c = lower_code p" "ci_eq h' lit"
    by (cases h) (auto simp: ci_eq_def)
  then show ?case using Cons.IH by simp
qed

lemma match_here_digits:
  assumes "d \<noteq> []" "list_all is_digit d" "rest = [] \<or> \<not> is_digit (hd rest)"
  shows "match_here (Digits # items) (d @ rest)
         = map_option (\<lambda>groups. d # groups) (match_here items rest)"
proof -
  have "takeWhile is_digit (d @ rest) = d \<and> dropWhile is_digit (d @ rest) = rest"
    using assms(2,3) by (induction d) (auto simp: list_all_iff takeWhile_eq_Nil_iff dropWhile_eq_self_iff)
  with assms(1) show ?thesis by simp
qed

lemmas digit_eval = is_digit_def digit_value_def digit_zeros_def

text \<open>No character that matches the letter m or the letter s is a digit.\<close>

lemma matches_m_not_digit: "lower_code c = 109 \<Longrightarrow> \<not> is_digit c"
proof -
  assume "lower_code c = 109"
  then have "c = 77 \<or> c = 109"
    by (auto simp: lower_code_def split: if_splits)
  moreover have "\<not> is_digit 77" "\<not> is_digit 109"
    by (simp_all add: digit_eval)
  ultimately show ?thesis by blast
qed

lemma matches_s_not_digit: "lower_code c = 115 \<Longrightarrow> \<not> is_digit c"
proof -
  assume "lower_code c = 115"
  then have "c = 83 \<or> c = 115 \<or> c = 383"
    by (auto simp: lower_code_def split: if_splits)
  moreover have "\<not> is_digit 83" "\<not> is_digit 115" "\<not> is_digit 383"
    by (simp_all add: digit_eval)
  ultimately show ?thesis by blast
qed

lemma ci_eq_hd_not_digit:
  assumes "ci_eq mm (p # lit)" "\<And>c. lower_code c = lower_code p \<Longrightarrow> \<not> is_digit c"
  shows "(mm @ rest) = [] \<or> \<not> is_digit (hd (mm @ rest))"
proof -
  obtain c mm' where mm: "mm = c # mm'" "lower_code c = lower_code p"
    using assms(1) by (cases mm) (auto simp: ci_eq_def)
  with assms(2) show ?thesis by simp
qed

lemma match_wait_time_pattern:
  assumes "ci_eq h (codes ''You have '')" "ci_eq mm (codes ''m '')"
    and "ci_eq t (codes ''s left to wait'')"
    and "dm \<noteq> []" "list_all is_digit dm" "ds \<noteq> []" "list_all is_digit ds"
    and "c \<noteq> 0x0A"
  shows "match_here wait_time_pattern (h @ dm @ mm @ ds @ t @ c # post) = Some [dm, ds]"
proof -
  have "ci_eq mm (109 # codes '' '')"
    using assms(2) by (simp add: codes_def)
  then have m_nd: "(mm @ r) = [] \<or> \<not> is_digit (hd (mm @ r))" for r
    by (rule ci_eq_hd_not_digit) (simp add: lower_code_def matches_m_not_digit)
  have "ci_eq t (115 # codes '' left to wait'')"
    using assms(3) by (simp add: codes_def)
  then have s_nd: "(t @ r) = [] \<or> \<not> is_digit (hd (t @ r))" for r
    by (rule ci_eq_hd_not_digit) (simp add: lower_code_def matches_s_not_digit)
  have "match_here wait_time_pattern (h @ dm @ mm @ ds @ t @ c # post)
        = match_here (Digits # map Lit (codes ''m '') @ [Digits]
              @ map Lit (codes ''s left to wait'') @ [Dot])
            (dm @ mm @ ds @ t @ c # post)"
    unfolding wait_time_pattern_def using match_here_lits [OF assms(1)] by simp
  also have "\<dots> = map_option (\<lambda>groups. dm # groups)
        (match_here (map Lit (codes ''m '') @ [Digits] @ map Lit (codes ''s left to wait'') @ [Dot])
            (mm @ ds @ t @ c # post))"
    using match_here_digits [OF assms(4,5) m_nd] by simp
  also have "match_here (map Lit (codes ''m '') @ [Digits] @ map Lit (codes ''s left to wait'') @ [Dot])
            (mm @ ds @ t @ c # post)
       = match_here (Digits # map Lit (codes ''s left to wait'') @ [Dot]) (ds @ t @ c # post)"
    using match_here_lits [OF assms(2)] by simp
  also have "\<dots> = map_option (\<lambda>groups. ds # groups)
        (match_here (map Lit (codes ''s left to wait'') @ [Dot]) (t @ c # post))"
    using match_here_digits [OF assms(6,7) s_nd] by simp
  also have "match_here (map Lit (codes ''s left to wait'') @ [Dot]) (t @ c # post)
       = match_here [Dot] (c # post)"
    using match_here_lits [OF assms(3)] by simp
  also have "\<dots> = Some []" using assms(8) by simp
  finally show ?thesis by simp
qed

lemmas parser_eval = parse_wait_time_def wait_time_pattern_def minutes_wait_pattern_def
  codes_def lower_code_def digit_eval decimal_def py_int_def int_max_str_digits_def
  timedelta_of_def td_check_def td_min_def td_max_def

text \<open>
  Claim C6, as the code has it. The sentence the code looks for is
  \<^verbatim>\<open>You have <m>m <s>s left to wait.\<close>, letters in either case, \<open><m>\<close> and \<open><s>\<close>
  non-empty runs of digits. For a message whose leftmost match is such a sentence, with
  runs of at most 4300 digits and a duration that a \<^verbatim>\<open>timedelta\<close> can hold, the
  parser returns exactly \<open>m\<close> minutes plus \<open>s\<close> seconds.
\<close>

theorem parse_wait_time_minutes_seconds:
  assumes "message = pre @ h @ dm @ mm @ ds @ t @ codes ''.'' @ post"
    and "ci_eq h (codes ''You have '')" "ci_eq mm (codes ''m '')"
    and "ci_eq t (codes ''s left to wait'')"
    and "dm \<noteq> []" "list_all is_digit dm" "length dm \<le> int_max_str_digits"
    and "ds \<noteq> []" "list_all is_digit ds" "length ds \<le> int_max_str_digits"
    and "\<forall>k<length pre. match_here wait_time_pattern (drop k message) = None"
    and "(int (decimal dm) * 60 + int (decimal ds)) * 1000000 \<le> td_max"
  shows "parse_wait_time message = Inr ((int (decimal dm) * 60 + int (decimal ds)) * 1000000)"
proof -
  have m: "message = pre @ h @ dm @ mm @ ds @ t @ 46 # post"
    using assms(1) by (simp add: codes_def)
  have "match_here wait_time_pattern (h @ dm @ mm @ ds @ t @ 46 # post) = Some [dm, ds]"
    using assms(2-6,8,9) by (intro match_wait_time_pattern) simp_all
  then have "re_search wait_time_pattern message = Some [dm, ds]"
    using re_search_leftmost [of pre wait_time_pattern "h @ dm @ mm @ ds @ t @ 46 # post"]
      m assms(11) by simp
  moreover have "td_min \<le> (int (decimal dm) * 60 + int (decimal ds)) * 1000000"
    by (simp add: td_min_def)
  ultimately show ?thesis
    using assms(7,10,12) by (simp add: parse_wait_time_def py_int_def timedelta_of_def td_check_def)
qed

theorem parse_wait_time_minutes_seconds_witness:
  "parse_wait_time (codes ''Hint: you HAVE 4M 30s left to wait. Try later.'') = Inr 270000000"
proof -
  have "parse_wait_time (codes ''Hint: '' @ codes ''you HAVE '' @ codes ''4'' @ codes ''M ''
          @ codes ''30'' @ codes ''s left to wait'' @ codes ''.'' @ codes '' Try later.'')
      = Inr ((int (decimal (codes ''4'')) * 60 + int (decimal (codes ''30''))) * 1000000)"
  proof (rule parse_wait_time_minutes_seconds [OF refl])
    show "\<forall>k<length (codes ''Hint: ''). match_here wait_time_pattern
       (drop k (codes ''Hint: '' @ codes ''you HAVE '' @ codes ''4'' @ codes ''M ''
          @ codes ''30'' @ codes ''s left to wait'' @ codes ''.'' @ codes '' Try later.'')) = None"
      by (simp add: All_less_Suc2 wait_time_pattern_def codes_def lower_code_def)
  qed (simp_all add: ci_eq_def codes_def lower_code_def digit_eval decimal_def
        int_max_str_digits_def td_max_def)
  then show ?thesis by (simp add: codes_def decimal_def digit_eval)
qed

text \<open>
  The words \<^verbatim>\<open>You have\<close> and the full stop belong to the sentence: a message
  without them is not recognised and the duration is zero. And a number of minutes beyond
  what a \<^verbatim>\<open>timedelta\<close> holds gives no duration.
\<close>

theorem parse_wait_time_pattern_counterexample:
  "parse_wait_time (codes ''4m 30s left to wait'') = Inr 0
   \<and> parse_wait_time (codes ''4m 30s left to wait'') \<noteq> Inr ((4 * 60 + 30) * 1000000)
   \<and> parse_wait_time (codes ''You have 1440000000000m 0s left to wait.'') = Inl OverflowError"
  by (simp add: parser_eval)

text \<open>
  Digits and letters beyond ASCII: an Arabic-Indic four (U+0664), a long s (U+017F) and a
  dotless i (U+0131) in \<^verbatim>\<open>YOU have 4M 30s left to wait.\<close>
\<close>

lemma parse_wait_time_unicode_example:
  "parse_wait_time [89, 79, 85, 32, 104, 97, 118, 101, 32, 1636, 77, 32, 51, 48, 383, 32,
     108, 101, 102, 116, 32, 116, 111, 32, 119, 97, 305, 116, 46] = Inr 270000000"
  by (simp add: parser_eval)

lemma match_here_groups:
  "match_here p s = Some g \<Longrightarrow> length g = length (filter (\<lambda>i. i = Digits) p)"
proof (induction p s arbitrary: g rule: match_here.induct)
  case (1 s)
  then show ?case by simp
next
  case (2 p items s)
  then show ?case by (auto split: list.splits if_splits)
next
  case (3 items s)
  then show ?case by (auto split: list.splits if_splits)
next
  case (4 items s)
  then show ?case by (auto simp: Let_def split: if_splits)
qed

lemma re_search_groups:
  "re_search p s = Some g \<Longrightarrow> length g = length (filter (\<lambda>i. i = Digits) p)"
  by (induction s) (auto split: option.splits dest: match_here_groups)

text \<open>Every group is a run of digits of the string.\<close>

lemma match_here_runs:
  "match_here p s = Some g \<Longrightarrow> d \<in> set g \<Longrightarrow> sublist d s \<and> list_all is_digit d"
proof (induction p s arbitrary: g rule: match_here.induct)
  case (1 s)
  then show ?case by simp
next
  case (2 p items s)
  then show ?case by (auto simp: sublist_Cons_right split: list.splits if_splits)
next
  case (3 items s)
  then show ?case by (auto simp: sublist_Cons_right split: list.splits if_splits)
next
  case (4 items s)
  from "4.prems"(1) obtain g' where g': "takeWhile is_digit s \<noteq> []"
    "match_here items (dropWhile is_digit s) = Some g'" "g = takeWhile is_digit s # g'"
    by (auto simp: Let_def split: if_splits)
  show ?case
  proof (cases "d = takeWhile is_digit s")
    case True
    then show ?thesis
      by (auto simp: list_all_iff dest: set_takeWhileD)
  next
    case False
    with "4.prems"(2) g'(3) have "d \<in> set g'" by simp
    from "4.IH" [OF refl g'(1) g'(2) this]
    have "sublist d (dropWhile is_digit s)" "list_all is_digit d" by simp_all
    moreover have "sublist (dropWhile is_digit s) s"
      by (rule suffix_imp_sublist) (rule suffix_dropWhile)
    ultimately show ?thesis
      using sublist_order.order_trans by blast
  qed
qed

lemma re_search_runs:
  "re_search p s = Some g \<Longrightarrow> d \<in> set g \<Longrightarrow> sublist d s \<and> list_all is_digit d"
proof (induction s)
  case Nil
  then have "match_here p [] = Some g" by simp
  from match_here_runs [OF this Nil(2)] show ?case .
next
  case (Cons c cs)
  show ?case
  proof (cases "match_here p (c # cs)")
    case None
    with Cons have "sublist d cs \<and> list_all is_digit d" by simp
    then show ?thesis by (simp add: sublist_Cons_right)
  next
    case (Some g')
    with Cons.prems have "match_here p (c # cs) = Some g" by simp
    from match_here_runs [OF this Cons.prems(2)] show ?thesis .
  qed
qed

lemma digit_value_le: "digit_value c = Some v \<Longrightarrow> v \<le> 9"
proof -
  assume "digit_value c = Some v"
  then obtain z where "find (\<lambda>z. z \<le> c \<and> c < z + 10) digit_zeros = Some z" "v = nat (c - z)"
    by (auto simp: digit_value_def)
  then show ?thesis by (auto simp: find_Some_iff)
qed

lemma decimal_snoc:
  "decimal (ds @ [c]) = 10 * decimal ds + (case digit_value c of Some v \<Rightarrow> v | None \<Rightarrow> 0)"
  by (simp add: decimal_def)

lemma decimal_less: "decimal ds < 10 ^ length ds"
proof (induction ds rule: rev_induct)
  case Nil
  then show ?case by (simp add: decimal_def)
next
  case (snoc c ds)
  have "(case digit_value c of Some v \<Rightarrow> v | None \<Rightarrow> 0) \<le> 9"
    by (auto split: option.splits dest: digit_value_le)
  with snoc show ?case by (simp add: decimal_snoc)
qed

lemma decimal_short: "length ds \<le> 12 \<Longrightarrow> decimal ds < 1000000000000"
proof -
  assume "length ds \<le> 12"
  then have "(10::nat) ^ length ds \<le> 10 ^ 12"
    by (intro power_increasing) simp_all
  with decimal_less [of ds] show ?thesis by simp
qed

text \<open>The four ways through the parser.\<close>

lemma parse_wait_time_first:
  assumes "re_search wait_time_pattern message = Some g"
  shows "\<exists>dm ds. g = [dm, ds] \<and> parse_wait_time message =
           (if length dm > int_max_str_digits \<or> length ds > int_max_str_digits
            then Inl ValueError
            else timedelta_of (int (decimal dm)) (int (decimal ds)))"
proof -
  have "length g = 2"
    using re_search_groups [OF assms] by (simp add: wait_time_pattern_def codes_def)
  then obtain dm ds where "g = [dm, ds]"
    by (cases g; cases "tl g") auto
  with assms show ?thesis
    by (simp add: parse_wait_time_def py_int_def)
qed

lemma parse_wait_time_second:
  assumes "re_search wait_time_pattern message = None"
    and "contains message (codes ''one minute'')"
  shows "parse_wait_time message = Inr 60000000"
  using assms
  by (simp add: parse_wait_time_def timedelta_of_def td_check_def td_min_def td_max_def)

lemma parse_wait_time_third:
  assumes "re_search wait_time_pattern message = None"
    and "\<not> contains message (codes ''one minute'')"
    and "re_search minutes_wait_pattern message = Some g"
  shows "\<exists>d. g = [d] \<and> parse_wait_time message =
           (if length d > int_max_str_digits then Inl ValueError
            else timedelta_of (int (decimal d)) 0)"
proof -
  have "length g = 1"
    using re_search_groups [OF assms(3)] by (simp add: minutes_wait_pattern_def codes_def)
  then obtain d where "g = [d]" by (cases g) auto
  with assms show ?thesis
    by (simp add: parse_wait_time_def py_int_def)
qed

lemma parse_wait_time_fourth:
  assumes "re_search wait_time_pattern message = None"
    and "\<not> contains message (codes ''one minute'')"
    and "re_search minutes_wait_pattern message = None"
  shows "parse_wait_time message = Inr 0"
  using assms
  by (simp add: parse_wait_time_def timedelta_of_def td_check_def td_min_def td_max_def)

lemma timedelta_of_cases:
  "0 \<le> m \<Longrightarrow> 0 \<le> s \<Longrightarrow>
   timedelta_of m s = (if (m * 60 + s) * 1000000 \<le> td_max
                       then Inr ((m * 60 + s) * 1000000) else Inl OverflowError)"
  by (simp add: timedelta_of_def td_check_def td_min_def)

lemma parse_wait_time_nonneg: "parse_wait_time message = Inr d \<Longrightarrow> 0 \<le> d"
proof -
  assume a: "parse_wait_time message = Inr d"
  show ?thesis
  proof (cases "re_search wait_time_pattern message")
    case (Some g)
    from parse_wait_time_first [OF Some] a show ?thesis
      by (auto simp: timedelta_of_cases split: if_splits)
  next
    case None
    show ?thesis
    proof (cases "contains message (codes ''one minute'')")
      case True
      from parse_wait_time_second [OF None True] a show ?thesis by simp
    next
      case False
      show ?thesis
      proof (cases "re_search minutes_wait_pattern message")
        case (Some g)
        from parse_wait_time_third [OF None False Some] a show ?thesis
          by (auto simp: timedelta_of_cases split: if_splits)
      next
        case n3: None
        from parse_wait_time_fourth [OF None False n3] a show ?thesis by simp
      qed
    qed
  qed
qed

lemma parse_wait_time_error:
  assumes "parse_wait_time message = Inl e"
  shows "(e = ValueError \<or> e = OverflowError)
    \<and> (e = ValueError \<longrightarrow>
         (\<exists>ds. sublist ds message \<and> list_all is_digit ds \<and> length ds > int_max_str_digits))
    \<and> (re_search wait_time_pattern message \<noteq> None
         \<or> re_search minutes_wait_pattern message \<noteq> None)"
proof (cases "re_search wait_time_pattern message")
  case (Some g)
  from parse_wait_time_first [OF Some] obtain dm ds where g: "g = [dm, ds]"
    and p: "parse_wait_time message =
           (if length dm > int_max_str_digits \<or> length ds > int_max_str_digits
            then Inl ValueError
            else timedelta_of (int (decimal dm)) (int (decimal ds)))"
    by blast
  have runs: "sublist dm message \<and> list_all is_digit dm" "sublist ds message \<and> list_all is_digit ds"
    using re_search_runs [OF Some] g by simp_all
  show ?thesis
  proof (cases "length dm > int_max_str_digits \<or> length ds > int_max_str_digits")
    case True
    with p assms have "e = ValueError" by simp
    with True runs Some show ?thesis by auto
  next
    case False
    with p assms have "e = OverflowError"
      by (auto simp: timedelta_of_cases split: if_splits)
    with Some show ?thesis by simp
  qed
next
  case None
  show ?thesis
  proof (cases "contains message (codes ''one minute'')")
    case True
    from parse_wait_time_second [OF None True] assms show ?thesis by simp
  next
    case False
    show ?thesis
    proof (cases "re_search minutes_wait_pattern message")
      case (Some g)
      from parse_wait_time_third [OF None False Some] obtain d where g: "g = [d]"
        and p: "parse_wait_time message =
           (if length d > int_max_str_digits then Inl ValueError
            else timedelta_of (int (decimal d)) 0)"
        by blast
      have run: "sublist d message \<and> list_all is_digit d"
        using re_search_runs [OF Some] g by simp
      show ?thesis
      proof (cases "length d > int_max_str_digits")
        case True
        with p assms have "e = ValueError" by simp
        with True run Some show ?thesis by auto
      next
        case f: False
        with p assms have "e = OverflowError"
          by (auto simp: timedelta_of_cases split: if_splits)
        with Some show ?thesis by simp
      qed
    next
      case n3: None
      from parse_wait_time_fourth [OF None False n3] assms show ?thesis by simp
    qed
  qed
qed

lemma parse_wait_time_short_runs:
  assumes "\<forall>ds. sublist ds message \<and> list_all is_digit ds \<longrightarrow> length ds \<le> 12"
  shows "\<exists>d. parse_wait_time message = Inr d"
proof (cases "re_search wait_time_pattern message")
  case (Some g)
  from parse_wait_time_first [OF Some] obtain dm ds where g: "g = [dm, ds]"
    and p: "parse_wait_time message =
           (if length dm > int_max_str_digits \<or> length ds > int_max_str_digits
            then Inl ValueError
            else timedelta_of (int (decimal dm)) (int (decimal ds)))"
    by blast
  have "length dm \<le> 12" "length ds \<le> 12"
    using re_search_runs [OF Some] g assms by simp_all
  then have "decimal dm < 1000000000000" "decimal ds < 1000000000000"
    "\<not> (length dm > int_max_str_digits \<or> length ds > int_max_str_digits)"
    by (simp_all add: decimal_short int_max_str_digits_def)
  with p show ?thesis
    by (simp add: timedelta_of_cases td_max_def)
next
  case None
  show ?thesis
  proof (cases "contains message (codes ''one minute'')")
    case True
    from parse_wait_time_second [OF None True] show ?thesis by simp
  next
    case False
    show ?thesis
    proof (cases "re_search minutes_wait_pattern message")
      case (Some g)
      from parse_wait_time_third [OF None False Some] obtain d where g: "g = [d]"
        and p: "parse_wait_time message =
           (if length d > int_max_str_digits then Inl ValueError
            else timedelta_of (int (decimal d)) 0)"
        by blast
      have "length d \<le> 12"
        using re_search_runs [OF Some] g assms by simp
      then have "decimal d < 1000000000000" "\<not> length d > int_max_str_digits"
        by (simp_all add: decimal_short int_max_str_digits_def)
      with p show ?thesis
        by (simp add: timedelta_of_cases td_max_def)
    next
      case n3: None
      from parse_wait_time_fourth [OF None False n3] show ?thesis by simp
    qed
  qed
qed

text \<open>
  Claim C9, as the code has it. A message that matches the first pattern at no position,
  does not contain \<^verbatim>\<open>one minute\<close>, and matches the third pattern at no position:
  the parser returns the zero duration and raises nothing. On the other messages the
  parser is not total. It returns a duration, never negative, for every message without a
  run of more than 12 digits. What it raises is \<^verbatim>\<open>ValueError\<close>, when the message
  has a run of more than 4300 digits, or \<^verbatim>\<open>OverflowError\<close>, and it raises only when
  the first or the third pattern matches.
\<close>

theorem parse_wait_time_where_total:
  "((\<forall>k\<le>length message. match_here wait_time_pattern (drop k message) = None)
      \<and> \<not> sublist (codes ''one minute'') message
      \<and> (\<forall>k\<le>length message. match_here minutes_wait_pattern (drop k message) = None)
     \<longrightarrow> parse_wait_time message = Inr 0)
   \<and> ((\<forall>ds. sublist ds message \<and> list_all is_digit ds \<longrightarrow> length ds \<le> 12)
     \<longrightarrow> (\<exists>d. parse_wait_time message = Inr d \<and> 0 \<le> d))
   \<and> (parse_wait_time message = Inl e \<longrightarrow>
        (e = ValueError \<or> e = OverflowError)
        \<and> (e = ValueError \<longrightarrow>
             (\<exists>ds. sublist ds message \<and> list_all is_digit ds \<and> length ds > int_max_str_digits))
        \<and> (re_search wait_time_pattern message \<noteq> None
             \<or> re_search minutes_wait_pattern message \<noteq> None))"
proof (intro conjI impI)
  assume a: "(\<forall>k\<le>length message. match_here wait_time_pattern (drop k message) = None)
      \<and> \<not> sublist (codes ''one minute'') message
      \<and> (\<forall>k\<le>length message. match_here minutes_wait_pattern (drop k message) = None)"
  then have "re_search wait_time_pattern message = None"
    "\<not> contains message (codes ''one minute'')"
    "re_search minutes_wait_pattern message = None"
    by (simp_all add: re_search_None_iff contains_iff_sublist)
  then show "parse_wait_time message = Inr 0"
    by (rule parse_wait_time_fourth)
next
  assume "\<forall>ds. sublist ds message \<and> list_all is_digit ds \<longrightarrow> length ds \<le> 12"
  then obtain d where "parse_wait_time message = Inr d"
    using parse_wait_time_short_runs by blast
  then show "\<exists>d. parse_wait_time message = Inr d \<and> 0 \<le> d"
    using parse_wait_time_nonneg by blast
next
  assume e: "parse_wait_time message = Inl e"
  from parse_wait_time_error [OF e]
  show "e = ValueError \<or> e = OverflowError"
    "e = ValueError \<Longrightarrow>
       \<exists>ds. sublist ds message \<and> list_all is_digit ds \<and> length ds > int_max_str_digits"
    "re_search wait_time_pattern message \<noteq> None
      \<or> re_search minutes_wait_pattern message \<noteq> None"
    by blast+
qed

theorem parse_wait_time_where_total_witness:
  "parse_wait_time (codes ''That's not the right answer.'') = Inr 0
   \<and> (\<exists>d. parse_wait_time (codes ''one minute'') = Inr d \<and> 0 \<le> d)
   \<and> (\<exists>g. re_search wait_time_pattern
            (codes ''You have 1440000000000m 0s left to wait.'') = Some g
          \<or> re_search minutes_wait_pattern
            (codes ''You have 1440000000000m 0s left to wait.'') = Some g)"
proof (intro conjI)
  have "re_search wait_time_pattern (codes ''That's not the right answer.'') = None"
    by (simp add: wait_time_pattern_def codes_def lower_code_def)
  moreover have "re_search minutes_wait_pattern (codes ''That's not the right answer.'') = None"
    by (simp add: minutes_wait_pattern_def codes_def lower_code_def)
  moreover have "\<not> sublist (codes ''one minute'') (codes ''That's not the right answer.'')"
    by (simp add: contains_iff_sublist [symmetric] codes_def)
  ultimately show "parse_wait_time (codes ''That's not the right answer.'') = Inr 0"
    using parse_wait_time_where_total [of "codes ''That's not the right answer.''"]
    by (simp add: re_search_None_iff)
next
  have "\<forall>ds. sublist ds (codes ''one minute'') \<and> list_all is_digit ds \<longrightarrow> length ds \<le> 12"
    by (auto dest: sublist_length_le simp: codes_def)
  with parse_wait_time_where_total [of "codes ''one minute''"]
  show "\<exists>d. parse_wait_time (codes ''one minute'') = Inr d \<and> 0 \<le> d"
    by blast
next
  have "parse_wait_time (codes ''You have 1440000000000m 0s left to wait.'') = Inl OverflowError"
    by (simp add: parser_eval)
  with parse_wait_time_where_total
    [of "codes ''You have 1440000000000m 0s left to wait.''" OverflowError]
  show "\<exists>g. re_search wait_time_pattern
            (codes ''You have 1440000000000m 0s left to wait.'') = Some g
          \<or> re_search minutes_wait_pattern
            (codes ''You have 1440000000000m 0s left to wait.'') = Some g"
    by auto
qed

text \<open>
  A message of the third pattern whose minutes are a thousand million days: the parser
  raises.
\<close>

theorem parse_wait_time_raises_counterexample:
  "parse_wait_time (codes ''Please wait 1440000000000 minutes before trying again.'')
     = Inl OverflowError"
  by (simp add: parser_eval)

section \<open>Properties of the dispatcher\<close>

lemma countdown_no_submit: "Submit \<notin> set (display_countdown_timer r)"
  by (induction r rule: display_countdown_timer.induct)
     (subst display_countdown_timer.simps, simp)

lemma countdown_sleeps:
  "length (filter (\<lambda>e. e = Sleep) (display_countdown_timer r)) = nat ((r + 999999) div 1000000)"
proof (induction r rule: display_countdown_timer.induct)
  case (1 r)
  show ?case
  proof (cases "r > 0")
    case True
    have "(r + 999999) div 1000000 = (r - 1000000 + 999999) div 1000000 + 1"
      by simp
    moreover have "0 \<le> (r - 1000000 + 999999) div 1000000"
      using True by simp
    ultimately show ?thesis
      using True "1.IH" by (subst display_countdown_timer.simps) simp
  next
    case False
    then have "(r + 999999) div 1000000 \<le> 0"
      by simp
    with False show ?thesis
      by (subst display_countdown_timer.simps) simp
  qed
qed

lemma countdown_last: "last (display_countdown_timer r) = SayMayNowSubmit"
proof (induction r rule: display_countdown_timer.induct)
  case (1 r)
  have ne: "display_countdown_timer x \<noteq> []" for x
    by (subst display_countdown_timer.simps) simp
  show ?case
    using "1.IH" ne by (subst display_countdown_timer.simps) simp
qed

text \<open>
  Claim C2. When the status query reports that the part was already accepted, the attempt
  says so and ends: it reads no cache, waits for nothing and calls no submission.
\<close>

theorem already_answered_no_submission:
  assumes "answered = Inr True"
  shows "submit_answer_attempt parse aocd_dir now answered submission refresh
           = ([SayAlreadySubmitted], None)
         \<and> Submit \<notin> set (fst (submit_answer_attempt parse aocd_dir now answered submission refresh))"
  using assms by (simp add: submit_answer_attempt_def)

theorem already_answered_no_submission_witness:
  "submit_answer_attempt parse_iso scenario_cache scenario_now (Inr True) (Inr None) refresh_ok
     = ([SayAlreadySubmitted], None)"
  using already_answered_no_submission [of "Inr True" parse_iso scenario_cache scenario_now "Inr None" refresh_ok]
  by simp

text \<open>
  Claim C1, as the code has it. When the part is not answered yet and the remaining
  cooldown is positive, the attempt is the countdown and nothing else: one sleep of a
  second for every second of the remaining time, begun seconds counted whole, then the
  message that the operator may now submit. No submission is issued; the network call is
  the other branch of the test of line 172.
\<close>

theorem cooldown_waits_without_submitting:
  assumes "answered = Inr False"
    and "calculate_remaining_wait_time parse aocd_dir now = Inr remaining"
    and "remaining > 0"
  shows "submit_answer_attempt parse aocd_dir now answered submission refresh
           = (display_countdown_timer remaining, None)
         \<and> length (filter (\<lambda>e. e = Sleep) (display_countdown_timer remaining))
             = nat ((remaining + 999999) div 1000000)
         \<and> last (display_countdown_timer remaining) = SayMayNowSubmit
         \<and> Submit \<notin> set (display_countdown_timer remaining)"
  using assms
  by (simp add: submit_answer_attempt_def countdown_no_submit countdown_sleeps countdown_last)

lemma scenario_remaining:
  "calculate_remaining_wait_time parse_iso scenario_cache scenario_now = Inr 30000000"
  by code_simp

theorem cooldown_waits_without_submitting_witness:
  "submit_answer_attempt parse_iso scenario_cache scenario_now (Inr False) (Inr (Some [])) refresh_ok
     = (display_countdown_timer 30000000, None)
   \<and> length (filter (\<lambda>e. e = Sleep) (display_countdown_timer 30000000)) = 30"
  using cooldown_waits_without_submitting [OF refl scenario_remaining, of "Inr (Some [])" refresh_ok]
  by simp

text \<open>
  The cache of the scenario leaves thirty seconds to wait, and the attempt made then
  issues no submission.
\<close>

theorem cooldown_then_submit_counterexample:
  "calculate_remaining_wait_time parse_iso scenario_cache scenario_now = Inr 30000000
   \<and> Submit \<notin> set (fst (submit_answer_attempt parse_iso scenario_cache scenario_now
        (Inr False) (Inr (Some [])) refresh_ok))"
  by code_simp

text \<open>
  Claim C7 on two responses. The branch of \<^verbatim>\<open>[Continue to Part Two]\<close> has no
  \<^verbatim>\<open>break\<close>, unlike the branch of \<^verbatim>\<open>You have completed Day\<close> before it: a
  second paragraph with the marker refreshes the examples a second time, and a later
  paragraph with the other marker is still reported.
\<close>

theorem continue_marker_refreshes_again:
  "submit_answer_attempt parse_iso (Some []) scenario_now (Inr False)
     (Inr (Some [''That's the right answer! [Continue to Part Two]'', ''[Continue to Part Two]'']))
     refresh_ok
   = ([Submit, Refresh, Refresh], None)
   \<and> submit_answer_attempt parse_iso (Some []) scenario_now (Inr False)
     (Inr (Some [''[Continue to Part Two]'', ''Both parts done. You have completed Day 1!'']))
     refresh_ok
   = ([Submit, Refresh, SayCompletion ''Both parts done. ''], None)"
  by code_simp

lemma scan_paragraphs_unmarked:
  "\<forall>text\<in>set paragraphs. \<not> sublist ''You have completed Day'' text
       \<and> \<not> sublist ''[Continue to Part Two]'' text \<Longrightarrow>
   scan_paragraphs refresh k paragraphs = []"
  by (induction paragraphs) (simp_all add: contains_iff_sublist)

text \<open>
  Claim C8, as the code has it. When no paragraph of the article contains
  \<^verbatim>\<open>You have completed Day\<close> or \<^verbatim>\<open>[Continue to Part Two]\<close>, the loop over the
  paragraphs does nothing, whatever they say: after the submission the attempt ends with
  no message and no refresh.
\<close>

theorem unmarked_article_reports_nothing:
  assumes "\<forall>text\<in>set paragraphs. \<not> sublist ''You have completed Day'' text
             \<and> \<not> sublist ''[Continue to Part Two]'' text"
    and "answered = Inr False"
    and "calculate_remaining_wait_time parse aocd_dir now = Inr 0"
  shows "scan_paragraphs refresh k paragraphs = []
         \<and> submit_answer_attempt parse aocd_dir now answered (Inr (Some paragraphs)) refresh
             = ([Submit], None)"
  using assms scan_paragraphs_unmarked [OF assms(1)]
  by (simp add: submit_answer_attempt_def)

lemma empty_cache_remaining:
  "calculate_remaining_wait_time parse_iso (Some []) scenario_now = Inr 0"
  by (simp add: calculate_remaining_wait_time_def read_last_submission_feedback_def
      and_then_def remaining_of_feedback_def)

theorem unmarked_article_reports_nothing_witness:
  "submit_answer_attempt parse_iso (Some []) scenario_now (Inr False)
     (Inr (Some [''That's not the right answer.''])) refresh_ok = ([Submit], None)"
proof -
  have "\<forall>text\<in>set [''That's not the right answer.''].
          \<not> sublist ''You have completed Day'' text \<and> \<not> sublist ''[Continue to Part Two]'' text"
    by (simp add: contains_iff_sublist [symmetric])
  from unmarked_article_reports_nothing [OF this refl empty_cache_remaining]
  show ?thesis by simp
qed

text \<open>
  A response that accepts the answer and one that rejects it give the same attempt: the
  code looks for neither phrase.
\<close>

theorem right_and_wrong_answer_counterexample:
  "submit_answer_attempt parse_iso (Some []) scenario_now (Inr False)
     (Inr (Some [''That's the right answer!''])) refresh_ok = ([Submit], None)
   \<and> submit_answer_attempt parse_iso (Some []) scenario_now (Inr False)
     (Inr (Some [''That's not the right answer.''])) refresh_ok = ([Submit], None)"
  by code_simp

section \<open>Properties of the feedback store reader\<close>

lemma scan_files_bad:
  "f \<in> set fs \<Longrightarrow> f = Unreadable \<or> f = Malformed \<Longrightarrow> \<exists>e. scan_files parse st fs = Inl e"
proof (induction fs arbitrary: st)
  case Nil
  then show ?case by simp
next
  case (Cons g fs)
  show ?case
  proof (cases "scan_file parse st g")
    case (Inl e)
    then show ?thesis by simp
  next
    case (Inr st')
    then have "g \<noteq> Unreadable" "g \<noteq> Malformed"
      by (auto simp: scan_file_def)
    with Cons.prems have "f \<in> set fs" by auto
    from Cons.IH [OF this Cons.prems(2)] Inr show ?thesis by simp
  qed
qed

text \<open>
  Claim C5, as the code has it. The reader opens and decodes every file outside any
  \<^verbatim>\<open>try\<close>: a file that cannot be read or decoded makes the read raise, the
  exception goes through the cooldown calculator, and an attempt for a part not answered
  yet ends with it before anything is submitted.
\<close>

theorem corrupt_file_is_fatal:
  assumes "f \<in> set post_files" and "f = Unreadable \<or> f = Malformed"
  shows "\<exists>e. read_last_submission_feedback parse (Some post_files) = Inl e
            \<and> calculate_remaining_wait_time parse (Some post_files) now = Inl e
            \<and> submit_answer_attempt parse (Some post_files) now (Inr False) submission refresh
                = ([], Some e)"
proof -
  obtain e where "scan_files parse (None, None) post_files = Inl e"
    using scan_files_bad [OF assms] by blast
  then show ?thesis
    by (simp add: read_last_submission_feedback_def calculate_remaining_wait_time_def
        submit_answer_attempt_def)
qed

theorem corrupt_file_is_fatal_witness:
  "\<exists>e. read_last_submission_feedback parse_iso (Some [Loaded (JArr []), Unreadable]) = Inl e
      \<and> calculate_remaining_wait_time parse_iso (Some [Loaded (JArr []), Unreadable]) scenario_now = Inl e
      \<and> submit_answer_attempt parse_iso (Some [Loaded (JArr []), Unreadable]) scenario_now
            (Inr False) (Inr None) refresh_ok = ([], Some e)"
  using corrupt_file_is_fatal [of Unreadable "[Loaded (JArr []), Unreadable]" parse_iso scenario_now "Inr None" refresh_ok]
  by simp

text \<open>
  A cache with one file that does not decode and one sound file: the read raises.
\<close>

theorem corrupt_file_counterexample:
  "read_last_submission_feedback parse_iso (Some [Malformed, Loaded (JArr [scenario_entry])])
     = Inl JSONDecodeError
   \<and> submit_answer_attempt parse_iso (Some [Malformed, Loaded (JArr [scenario_entry])])
       scenario_now (Inr False) (Inr None) refresh_ok = ([], Some JSONDecodeError)"
  by code_simp

lemma wait_test_string:
  "message_text fb = Some s \<Longrightarrow>
   and_then (dict_get fb ''message'' (JStr [])) (py_in ''wait'') = Inr (sublist ''wait'' s)"
  by (cases fb) (auto simp: contains_iff_sublist split: option.splits json.splits)

lemma scan_file_keeps:
  assumes "scan_file parse st f = Inr st'"
    and "\<forall>fb. fst st = Some fb \<longrightarrow> and_then (dict_get fb ''message'' (JStr [])) (py_in ''wait'') = Inr True"
  shows "\<forall>fb. fst st' = Some fb \<longrightarrow> and_then (dict_get fb ''message'' (JStr [])) (py_in ''wait'') = Inr True"
  using assms
  by (cases f) (auto simp: scan_file_def and_then_eq_Inr split: if_splits option.splits)

lemma scan_files_keeps:
  assumes "scan_files parse st fs = Inr st'"
    and "\<forall>fb. fst st = Some fb \<longrightarrow> and_then (dict_get fb ''message'' (JStr [])) (py_in ''wait'') = Inr True"
  shows "\<forall>fb. fst st' = Some fb \<longrightarrow> and_then (dict_get fb ''message'' (JStr [])) (py_in ''wait'') = Inr True"
  using assms
proof (induction fs arbitrary: st)
  case Nil
  then show ?case by simp
next
  case (Cons f fs)
  from Cons.prems(1) obtain st1 where st1: "scan_file parse st f = Inr st1"
    "scan_files parse st1 fs = Inr st'"
    by (auto simp: and_then_eq_Inr)
  from scan_file_keeps [OF st1(1) Cons.prems(2)] Cons.IH [OF st1(2)] show ?case by blast
qed

lemma reader_keeps_wait:
  assumes "read_last_submission_feedback parse aocd_dir = Inr (Some fb)"
  shows "and_then (dict_get fb ''message'' (JStr [])) (py_in ''wait'') = Inr True"
proof -
  from assms obtain fs st where "aocd_dir = Some fs" "scan_files parse (None, None) fs = Inr st"
    "fst st = Some fb"
    by (auto simp: read_last_submission_feedback_def and_then_eq_Inr split: option.splits)
  with scan_files_keeps [of parse "(None, None)" fs st] show ?thesis by simp
qed

lemma reader_keeps_wait_indicating:
  assumes "read_last_submission_feedback parse aocd_dir = Inr (Some fb)"
    and "message_text fb = Some s"
  shows "sublist ''wait'' s"
  using reader_keeps_wait [OF assms(1)] wait_test_string [OF assms(2)] by simp

lemma remaining_without_wait:
  assumes "message_text fb = Some s" "\<not> sublist ''wait'' s"
  shows "remaining_of_feedback parse now (Some fb) = Inr 0"
proof -
  have "and_then (dict_get fb ''message'' (JStr [])) (py_in ''wait'') = Inr False"
    using wait_test_string [OF assms(1)] assms(2) by simp
  then obtain m where "dict_get fb ''message'' (JStr []) = Inr m" "py_in ''wait'' m = Inr False"
    by (auto simp: and_then_eq_Inr)
  then show ?thesis
    by (simp add: remaining_of_feedback_def)
qed

lemma entry_time_when:
  "entry_time parse fb = Some t \<Longrightarrow>
   \<exists>kvs w. fb = JObj kvs \<and> map_of kvs ''when'' = Some (JStr w) \<and> parse w = Inr (Aware t)"
  by (cases fb) (auto split: option.splits json.splits sum.splits datetime.splits)

lemma entry_time_parse:
  "entry_time parse fb = Some t \<Longrightarrow>
   and_then (getitem fb ''when'') (py_parse parse) = Inr (Aware t)"
  by (auto dest!: entry_time_when)

lemma single_file_reader:
  assumes "message_text fb = Some s" "entry_time parse fb = Some t"
  shows "read_last_submission_feedback parse (Some [Loaded (JArr (es @ [fb]))])
         = Inr (if sublist ''wait'' s then Some fb else None)"
proof -
  obtain kvs w where fb: "fb = JObj kvs" "map_of kvs ''when'' = Some (JStr w)"
    "parse w = Inr (Aware t)"
    using entry_time_when [OF assms(2)] by blast
  have "and_then (dict_get fb ''message'' (JStr [])) (py_in ''wait'') = Inr (sublist ''wait'' s)"
    using assms(1) by (rule wait_test_string)
  then obtain m where m: "dict_get fb ''message'' (JStr []) = Inr m" "py_in ''wait'' m = Inr (sublist ''wait'' s)"
    by (auto simp: and_then_eq_Inr)
  show ?thesis
    using fb m by (simp add: read_last_submission_feedback_def scan_file_def)
qed

text \<open>
  Claim C10. For an entry whose message is a string \<open>s\<close>, the empty string when the
  field is missing: the test that the reader and the calculator both apply is true exactly
  when \<open>s\<close> contains \<^verbatim>\<open>wait\<close>, letter for letter; an entry the reader returns
  contains it; a file that ends in the entry makes the reader return the entry when it
  contains it and nothing when not; and the calculator gives the zero duration for an
  entry that does not contain it.
\<close>

theorem wait_indicating_is_substring:
  assumes "message_text fb = Some s"
  shows "and_then (dict_get fb ''message'' (JStr [])) (py_in ''wait'') = Inr (sublist ''wait'' s)
    \<and> (read_last_submission_feedback parse aocd_dir = Inr (Some fb) \<longrightarrow> sublist ''wait'' s)
    \<and> (entry_time parse fb = Some t \<longrightarrow>
         read_last_submission_feedback parse (Some [Loaded (JArr (es @ [fb]))])
           = Inr (if sublist ''wait'' s then Some fb else None))
    \<and> (\<not> sublist ''wait'' s \<longrightarrow> remaining_of_feedback parse now (Some fb) = Inr 0)"
  using assms wait_test_string reader_keeps_wait_indicating single_file_reader
    remaining_without_wait
  by blast

lemma scenario_entry_time: "entry_time parse_iso scenario_entry = Some 1733065200000000"
  by code_simp

lemma upper_case_entry_time: "entry_time parse_iso upper_case_entry = Some 1733065200000000"
  by code_simp

theorem wait_indicating_is_substring_witness:
  "read_last_submission_feedback parse_iso (Some [Loaded (JArr [scenario_entry, upper_case_entry])])
     = Inr None
   \<and> remaining_of_feedback parse_iso scenario_now (Some upper_case_entry) = Inr 0
   \<and> read_last_submission_feedback parse_iso (Some [Loaded (JArr [upper_case_entry, scenario_entry])])
     = Inr (Some scenario_entry)"
proof -
  have m1: "message_text upper_case_entry = Some ''Please WAIT before trying again.''"
    by (simp add: upper_case_entry_def)
  have m2: "message_text scenario_entry = Some ''You have 1m 0s left to wait.''"
    by (simp add: scenario_entry_def)
  have n1: "\<not> sublist ''wait'' ''Please WAIT before trying again.''"
    by (simp add: contains_iff_sublist [symmetric])
  have n2: "sublist ''wait'' ''You have 1m 0s left to wait.''"
    by (simp add: contains_iff_sublist [symmetric])
  from wait_indicating_is_substring [OF m1, of parse_iso None 1733065200000000 "[scenario_entry]" scenario_now]
    wait_indicating_is_substring [OF m2, of parse_iso None 1733065200000000 "[upper_case_entry]" scenario_now]
    n1 n2 upper_case_entry_time scenario_entry_time
  show ?thesis by simp
qed

lemma scan_files_append:
  "scan_files parse st (fs @ gs) = and_then (scan_files parse st fs) (\<lambda>st'. scan_files parse st' gs)"
proof (induction fs arbitrary: st)
  case Nil
  then show ?case by simp
next
  case (Cons f fs)
  then show ?case by (cases "scan_file parse st f") simp_all
qed

lemma well_formed_cases:
  assumes "well_formed parse f"
  obtains (nothing) "last_entry f = None" "\<And>st. scan_file parse st f = Inr st"
  | (entry) fb s t where "last_entry f = Some fb" "message_text fb = Some s"
      "entry_time parse fb = Some t" "\<exists>xs. f = Loaded (JArr xs) \<and> xs \<noteq> [] \<and> fb = last xs"
proof (cases f)
  case Unreadable
  with assms show ?thesis by (simp add: well_formed_def)
next
  case Malformed
  with assms show ?thesis by (simp add: well_formed_def)
next
  case (Loaded data)
  show ?thesis
  proof (cases "\<exists>xs. data = JArr xs \<and> xs \<noteq> []")
    case True
    then obtain xs where xs: "data = JArr xs" "xs \<noteq> []" by blast
    with assms Loaded obtain s t where "message_text (last xs) = Some s"
      "entry_time parse (last xs) = Some t"
      by (auto simp: well_formed_def)
    with xs Loaded entry [of "last xs" s t] show ?thesis by simp
  next
    case False
    with assms Loaded have nt: "\<not> truthy data"
      by (cases data) (auto simp: well_formed_def)
    from False Loaded have "last_entry f = None"
      by (cases data) auto
    moreover have "scan_file parse st f = Inr st" for st
      using nt Loaded by (simp add: scan_file_def)
    ultimately show ?thesis by (rule nothing)
  qed
qed

lemma scan_file_entry:
  assumes "f = Loaded (JArr xs)" "xs \<noteq> []" "fb = last xs"
    and "message_text fb = Some s" "entry_time parse fb = Some t"
  shows "scan_file parse st f =
     (if sublist ''wait'' s then
        (case snd st of
           None \<Rightarrow> Inr (Some fb, Some (Aware t))
         | Some latest_submission_time \<Rightarrow>
             and_then (dt_gt (Aware t) latest_submission_time) (\<lambda>later.
               if later then Inr (Some fb, Some (Aware t)) else Inr st))
      else Inr st)"
proof -
  have w: "and_then (getitem fb ''when'') (py_parse parse) = Inr (Aware t)"
    using assms(5) by (rule entry_time_parse)
  then obtain wv where wv: "getitem fb ''when'' = Inr wv" "py_parse parse wv = Inr (Aware t)"
    by (auto simp: and_then_eq_Inr)
  have "and_then (dict_get fb ''message'' (JStr [])) (py_in ''wait'') = Inr (sublist ''wait'' s)"
    using assms(4) by (rule wait_test_string)
  then obtain m where m: "dict_get fb ''message'' (JStr []) = Inr m"
    "py_in ''wait'' m = Inr (sublist ''wait'' s)"
    by (auto simp: and_then_eq_Inr)
  from assms(1-3) wv m show ?thesis
    by (auto simp: scan_file_def split: option.splits)
qed

lemma found_step:
  assumes "found parse fs st" "well_formed parse f"
  shows "\<exists>st'. scan_file parse st f = Inr st' \<and> found parse (fs @ [f]) st'"
  using assms(2)
proof (cases rule: well_formed_cases)
  case nothing
  then show ?thesis using assms(1) by (auto simp: found_def)
next
  case (entry fb s t)
  then obtain xs where xs: "f = Loaded (JArr xs)" "xs \<noteq> []" "fb = last xs" by blast
  note sf = scan_file_entry [OF xs entry(2,3), of st]
  show ?thesis
  proof (cases "sublist ''wait'' s")
    case False
    then have "\<not> wait_indicating fb" using entry(2) by (simp add: wait_indicating_def)
    moreover have "scan_file parse st f = Inr st" using sf False by simp
    ultimately show ?thesis using assms(1) entry(1) by (auto simp: found_def)
  next
    case True
    then have wi: "wait_indicating fb" using entry(2) by (simp add: wait_indicating_def)
    from assms(1) consider
      (none) "st = (None, None)"
        "\<forall>f\<in>set fs. \<forall>fb. last_entry f = Some fb \<longrightarrow> \<not> wait_indicating fb"
      | (some) fb0 t0 where "st = (Some fb0, Some (Aware t0))"
        "\<exists>f\<in>set fs. last_entry f = Some fb0" "wait_indicating fb0"
        "entry_time parse fb0 = Some t0"
        "\<forall>f\<in>set fs. \<forall>fb' t'. last_entry f = Some fb' \<and> wait_indicating fb'
                \<and> entry_time parse fb' = Some t' \<longrightarrow> t' \<le> t0"
      unfolding found_def by blast
    then show ?thesis
    proof cases
      case none
      have "scan_file parse st f = Inr (Some fb, Some (Aware t))"
        using sf True none(1) by simp
      moreover have "found parse (fs @ [f]) (Some fb, Some (Aware t))"
        unfolding found_def using none(2) wi entry(1,3) by auto
      ultimately show ?thesis by blast
    next
      case some
      show ?thesis
      proof (cases "t > t0")
        case True
        then have "scan_file parse st f = Inr (Some fb, Some (Aware t))"
          using sf \<open>sublist ''wait'' s\<close> some(1) by simp
        moreover have "\<forall>f'\<in>set (fs @ [f]). \<forall>fb' t'. last_entry f' = Some fb'
              \<and> wait_indicating fb' \<and> entry_time parse fb' = Some t' \<longrightarrow> t' \<le> t"
          using some(5) entry(1,3) True by fastforce
        then have "found parse (fs @ [f]) (Some fb, Some (Aware t))"
          unfolding found_def using wi entry(1,3) by auto
        ultimately show ?thesis by blast
      next
        case False
        then have "scan_file parse st f = Inr st"
          using sf \<open>sublist ''wait'' s\<close> some(1) by simp
        moreover have "\<forall>f'\<in>set (fs @ [f]). \<forall>fb' t'. last_entry f' = Some fb'
              \<and> wait_indicating fb' \<and> entry_time parse fb' = Some t' \<longrightarrow> t' \<le> t0"
          using some(5) entry(1,3) False by auto
        moreover have "\<exists>f'\<in>set (fs @ [f]). last_entry f' = Some fb0"
          using some(2) by auto
        ultimately have "scan_file parse st f = Inr st \<and> found parse (fs @ [f]) st"
          unfolding found_def using some(1,3,4) by blast
        then show ?thesis by blast
      qed
    qed
  qed
qed

lemma scan_files_found:
  "\<forall>f\<in>set fs. well_formed parse f \<Longrightarrow>
   \<exists>st. scan_files parse (None, None) fs = Inr st \<and> found parse fs st"
proof (induction fs rule: rev_induct)
  case Nil
  then show ?case by (simp add: found_def)
next
  case (snoc f fs)
  then obtain st where st: "scan_files parse (None, None) fs = Inr st" "found parse fs st"
    by auto
  from snoc.prems have "well_formed parse f" by simp
  from found_step [OF st(2) this] obtain st' where
    "scan_file parse st f = Inr st'" "found parse (fs @ [f]) st'" by blast
  with st(1) show ?case by (simp add: scan_files_append)
qed

text \<open>
  Claim C4, as the code has it. The reader looks at one entry of each file, the last
  (\<^verbatim>\<open>data[-1]\<close>), in every file that \<^verbatim>\<open>glob\<close> matches, whatever its year and
  day. Without the cache directory it returns none. When every file is well formed it
  returns; it returns none exactly when no last entry indicates a wait; and an entry it
  returns is the last entry of a file, indicates a wait, and is no earlier than any other
  last entry that indicates a wait.
\<close>

theorem reader_returns_latest_last_entry:
  "read_last_submission_feedback parse None = Inr None
   \<and> ((\<forall>f\<in>set post_files. well_formed parse f) \<longrightarrow>
       (\<exists>r. read_last_submission_feedback parse (Some post_files) = Inr r
          \<and> (r = None \<longleftrightarrow>
               (\<forall>f\<in>set post_files. \<forall>fb. last_entry f = Some fb \<longrightarrow> \<not> wait_indicating fb))
          \<and> (\<forall>fb. r = Some fb \<longrightarrow>
               (\<exists>f\<in>set post_files. last_entry f = Some fb) \<and> wait_indicating fb
               \<and> (\<exists>t. entry_time parse fb = Some t
                    \<and> (\<forall>f\<in>set post_files. \<forall>fb' t'. last_entry f = Some fb'
                          \<and> wait_indicating fb' \<and> entry_time parse fb' = Some t'
                          \<longrightarrow> t' \<le> t)))))"
proof (intro conjI impI)
  show "read_last_submission_feedback parse None = Inr None"
    by (simp add: read_last_submission_feedback_def)
next
  assume "\<forall>f\<in>set post_files. well_formed parse f"
  then obtain st where st: "scan_files parse (None, None) post_files = Inr st"
    "found parse post_files st"
    using scan_files_found by blast
  have r: "read_last_submission_feedback parse (Some post_files) = Inr (fst st)"
    using st(1) by (simp add: read_last_submission_feedback_def)
  let ?goal = "\<exists>r. read_last_submission_feedback parse (Some post_files) = Inr r
          \<and> (r = None \<longleftrightarrow>
               (\<forall>f\<in>set post_files. \<forall>fb. last_entry f = Some fb \<longrightarrow> \<not> wait_indicating fb))
          \<and> (\<forall>fb. r = Some fb \<longrightarrow>
               (\<exists>f\<in>set post_files. last_entry f = Some fb) \<and> wait_indicating fb
               \<and> (\<exists>t. entry_time parse fb = Some t
                    \<and> (\<forall>f\<in>set post_files. \<forall>fb' t'. last_entry f = Some fb'
                          \<and> wait_indicating fb' \<and> entry_time parse fb' = Some t'
                          \<longrightarrow> t' \<le> t)))"
  from st(2) show ?goal
    unfolding found_def
  proof (elim disjE conjE exE)
    assume "st = (None, None)"
      "\<forall>f\<in>set post_files. \<forall>fb. last_entry f = Some fb \<longrightarrow> \<not> wait_indicating fb"
    with r show ?goal by simp
  next
    fix fb t
    assume "st = (Some fb, Some (Aware t))" "\<exists>f\<in>set post_files. last_entry f = Some fb"
      "wait_indicating fb" "entry_time parse fb = Some t"
      "\<forall>f\<in>set post_files. \<forall>fb' t'. last_entry f = Some fb' \<and> wait_indicating fb'
                \<and> entry_time parse fb' = Some t' \<longrightarrow> t' \<le> t"
    with r show ?goal by auto
  qed
qed

lemma scenario_entry_wait: "wait_indicating scenario_entry"
  by (simp add: wait_indicating_def scenario_entry_def contains_iff_sublist [symmetric])

theorem reader_returns_latest_last_entry_witness:
  "\<exists>fb. read_last_submission_feedback parse_iso
           (Some [Loaded (JArr [later_entry, scenario_entry]), Loaded (JArr [])]) = Inr (Some fb)
        \<and> wait_indicating fb"
proof -
  have wf: "\<forall>f\<in>set [Loaded (JArr [later_entry, scenario_entry]), Loaded (JArr [])].
              well_formed parse_iso f"
    using scenario_entry_time by (simp add: well_formed_def scenario_entry_def)
  from reader_returns_latest_last_entry [of parse_iso
      "[Loaded (JArr [later_entry, scenario_entry]), Loaded (JArr [])]"] wf
  obtain r where r: "read_last_submission_feedback parse_iso
           (Some [Loaded (JArr [later_entry, scenario_entry]), Loaded (JArr [])]) = Inr r"
    "r = None \<longleftrightarrow> (\<forall>f\<in>set [Loaded (JArr [later_entry, scenario_entry]), Loaded (JArr [])].
         \<forall>fb. last_entry f = Some fb \<longrightarrow> \<not> wait_indicating fb)"
    "\<forall>fb. r = Some fb \<longrightarrow> wait_indicating fb"
    by blast
  from r(2) scenario_entry_wait have "r \<noteq> None" by simp
  then obtain fb where "r = Some fb" by blast
  with r(1,3) show ?thesis by blast
qed

text \<open>
  A file whose first entry tells the operator to wait and whose last entry, two minutes
  later, does not: the reader returns none, the entry that indicates a wait is not seen.
\<close>

theorem reader_all_entries_counterexample:
  "wait_indicating scenario_entry
   \<and> read_last_submission_feedback parse_iso (Some [Loaded (JArr [scenario_entry, later_entry])])
       = Inr None"
proof
  show "wait_indicating scenario_entry" by (rule scenario_entry_wait)
  show "read_last_submission_feedback parse_iso (Some [Loaded (JArr [scenario_entry, later_entry])])
       = Inr None"
    by code_simp
qed

section \<open>Properties of the cooldown calculator\<close>

lemma remaining_of_entry:
  assumes "message_text fb = Some msg" "sublist ''wait'' msg"
    and "parse_wait_time (codes msg) = Inr W" "entry_time parse fb = Some T"
  shows "remaining_of_feedback parse now (Some fb)
         = (if td_min \<le> W - (now - T) \<and> W - (now - T) \<le> td_max
            then Inr (max 0 (W - (now - T))) else Inl OverflowError)"
proof -
  obtain kvs w where fb: "fb = JObj kvs" "map_of kvs ''when'' = Some (JStr w)"
    "parse w = Inr (Aware T)"
    using entry_time_when [OF assms(4)] by blast
  have "msg \<noteq> []" using assms(2) by auto
  then have msg: "map_of kvs ''message'' = Some (JStr msg)"
    using assms(1) fb(1) by (auto split: option.splits json.splits)
  have "kvs \<noteq> []" using fb(2) by auto
  then show ?thesis
    using fb msg assms(2,3)
    by (simp add: remaining_of_feedback_def contains_iff_sublist td_sub_def td_check_def max.commute)
qed

lemma remaining_of_feedback_nonneg:
  "remaining_of_feedback parse now feedback = Inr r \<Longrightarrow> 0 \<le> r"
  by (auto simp: remaining_of_feedback_def and_then_eq_Inr split: option.splits if_splits)

text \<open>
  Claim C3. When the reader finds no entry, the remaining time is zero. When it finds an
  entry recorded at \<open>T\<close> whose message parses to the wait \<open>W\<close>, the remaining time is
  \<open>max 0 (W - (now - T))\<close>, as long as \<open>W - (now - T)\<close> is a duration a
  \<^verbatim>\<open>timedelta\<close> can hold (within 999999999 days; Python raises
  \<^verbatim>\<open>OverflowError\<close> beyond); from \<open>T + W\<close> on it is zero. A remaining time the
  calculator returns is never negative.
\<close>

theorem remaining_wait_time_formula:
  "(read_last_submission_feedback parse aocd_dir = Inr None \<longrightarrow>
      calculate_remaining_wait_time parse aocd_dir now = Inr 0)
   \<and> (read_last_submission_feedback parse aocd_dir = Inr (Some fb)
        \<and> message_text fb = Some msg \<and> parse_wait_time (codes msg) = Inr W
        \<and> entry_time parse fb = Some T \<longrightarrow>
      calculate_remaining_wait_time parse aocd_dir now
        = (if td_min \<le> W - (now - T) \<and> W - (now - T) \<le> td_max
           then Inr (max 0 (W - (now - T))) else Inl OverflowError)
      \<and> (T + W \<le> now \<and> now - (T + W) \<le> - td_min \<longrightarrow>
           calculate_remaining_wait_time parse aocd_dir now = Inr 0))
   \<and> (calculate_remaining_wait_time parse aocd_dir now = Inr r \<longrightarrow> 0 \<le> r)"
proof (intro conjI impI)
  assume "read_last_submission_feedback parse aocd_dir = Inr None"
  then show "calculate_remaining_wait_time parse aocd_dir now = Inr 0"
    by (simp add: calculate_remaining_wait_time_def remaining_of_feedback_def)
next
  assume a: "read_last_submission_feedback parse aocd_dir = Inr (Some fb)
        \<and> message_text fb = Some msg \<and> parse_wait_time (codes msg) = Inr W
        \<and> entry_time parse fb = Some T"
  then have "sublist ''wait'' msg"
    using reader_keeps_wait_indicating by blast
  with a show f: "calculate_remaining_wait_time parse aocd_dir now
        = (if td_min \<le> W - (now - T) \<and> W - (now - T) \<le> td_max
           then Inr (max 0 (W - (now - T))) else Inl OverflowError)"
    by (simp add: calculate_remaining_wait_time_def remaining_of_entry)
  assume b: "T + W \<le> now \<and> now - (T + W) \<le> - td_min"
  have "0 \<le> W" using a parse_wait_time_nonneg by blast
  then have "td_min \<le> W - (now - T)" "W - (now - T) \<le> td_max" "W - (now - T) \<le> 0"
    using b by (simp_all add: td_max_def)
  with f show "calculate_remaining_wait_time parse aocd_dir now = Inr 0"
    by simp
next
  assume "calculate_remaining_wait_time parse aocd_dir now = Inr r"
  then show "0 \<le> r"
    by (auto simp: calculate_remaining_wait_time_def and_then_eq_Inr
        dest: remaining_of_feedback_nonneg)
qed

lemma scenario_read:
  "read_last_submission_feedback parse_iso scenario_cache = Inr (Some scenario_entry)"
  by code_simp

lemma scenario_wait: "parse_wait_time (codes ''You have 1m 0s left to wait.'') = Inr 60000000"
  by (simp add: parser_eval)

theorem remaining_wait_time_formula_witness:
  "calculate_remaining_wait_time parse_iso None scenario_now = Inr 0
   \<and> calculate_remaining_wait_time parse_iso scenario_cache scenario_now = Inr 30000000
   \<and> calculate_remaining_wait_time parse_iso scenario_cache 1733065265000000 = Inr 0"
proof -
  have n: "read_last_submission_feedback parse_iso None = Inr None"
    by (simp add: read_last_submission_feedback_def)
  have m: "message_text scenario_entry = Some ''You have 1m 0s left to wait.''"
    by (simp add: scenario_entry_def)
  note t = remaining_wait_time_formula [of parse_iso _ _ scenario_entry
      "''You have 1m 0s left to wait.''" 60000000 1733065200000000]
  from t [of None scenario_now] n
  have 1: "calculate_remaining_wait_time parse_iso None scenario_now = Inr 0"
    by blast
  from t [of scenario_cache scenario_now] scenario_read m scenario_wait scenario_entry_time
  have 2: "calculate_remaining_wait_time parse_iso scenario_cache scenario_now = Inr 30000000"
    by (simp add: scenario_now_def td_min_def td_max_def)
  from t [of scenario_cache 1733065265000000] scenario_read m scenario_wait scenario_entry_time
  have 3: "calculate_remaining_wait_time parse_iso scenario_cache 1733065265000000 = Inr 0"
    by (simp add: td_min_def td_max_def)
  from 1 2 3 show ?thesis by blast
qed

end
